theory Spec2Isabelle
  imports Complex_Main "HOL-Library.AList" "HOL-Library.Char_ord" "HOL-Library.List_Lexorder"
    "HOL-Library.Product_Lexorder" "HOL-Library.Multiset"
begin

section \<open>Python values\<close>

text \<open>
  The stream catalog is a Python dictionary of JSON-like scalars.  A field of a stream
  may hold \<^verbatim>\<open>None\<close>, a boolean, an integer, a float or a string.  A float is a finite
  value, modelled by its exact rational, one of the two infinities, or a NaN.  A NaN
  carries the identity of its float object: \<^verbatim>\<open>==\<close> finds it unequal to every float, itself
  included, but the comparison of tuples takes one and the same object as equal to itself.
  Strings are byte strings.
\<close>

datatype pyfloat = Finite rat | PosInf | NegInf | NaN nat

datatype pyval = PNone | PBool bool | PInt int | PFloat pyfloat | PStr string

datatype error = TypeError | AttributeError

text \<open>
  Two pieces of the Python runtime are not part of the repository and are taken as
  parameters: the text of a finite float inside an f-string (\<^verbatim>\<open>repr\<close>), and the text of
  \<^verbatim>\<open>f"{x / (1024 * 1024):.1f}"\<close> as a function of the finite numeric value \<open>x\<close>.
\<close>

record pyrt =
  repr_float :: "rat \<Rightarrow> string"
  mb_1f :: "rat \<Rightarrow> string"

text \<open>Truth value of an object, as used by \<^verbatim>\<open>if x\<close>, \<^verbatim>\<open>x and y\<close>, \<^verbatim>\<open>x or y\<close>.\<close>

fun truthy :: "pyval \<Rightarrow> bool" where
  "truthy PNone = False"
| "truthy (PBool b) = b"
| "truthy (PInt i) = (i \<noteq> 0)"
| "truthy (PFloat x) = (x \<noteq> Finite 0)"
| "truthy (PStr s) = (s \<noteq> [])"

text \<open>\<^verbatim>\<open>x or y\<close>\<close>

definition py_or :: "pyval \<Rightarrow> pyval \<Rightarrow> pyval" where
  "py_or x y = (if truthy x then x else y)"

text \<open>\<^verbatim>\<open>isinstance(x, (int, float))\<close>; \<^verbatim>\<open>bool\<close> is a subclass of \<^verbatim>\<open>int\<close>.\<close>

fun is_number :: "pyval \<Rightarrow> bool" where
  "is_number (PBool b) = True"
| "is_number (PInt i) = True"
| "is_number (PFloat x) = True"
| "is_number v = False"

text \<open>The numeric value of a number; an integer compares with a float by its exact value.\<close>

fun num_of :: "pyval \<Rightarrow> pyfloat" where
  "num_of (PBool b) = Finite (if b then 1 else 0)"
| "num_of (PInt i) = Finite (of_int i)"
| "num_of (PFloat x) = x"
| "num_of v = Finite 0"

text \<open>\<^verbatim>\<open>x < y\<close> and \<^verbatim>\<open>x == y\<close> on numeric values: both are false as soon as one side is a NaN.\<close>

fun float_lt :: "pyfloat \<Rightarrow> pyfloat \<Rightarrow> bool" where
  "float_lt (NaN i) y = False"
| "float_lt x (NaN j) = False"
| "float_lt (Finite x) (Finite y) = (x < y)"
| "float_lt x PosInf = (x \<noteq> PosInf)"
| "float_lt NegInf y = (y \<noteq> NegInf)"
| "float_lt x y = False"

fun float_eq :: "pyfloat \<Rightarrow> pyfloat \<Rightarrow> bool" where
  "float_eq (NaN i) y = False"
| "float_eq x y = (x = y)"

fun is_str :: "pyval \<Rightarrow> bool" where
  "is_str (PStr s) = True"
| "is_str v = False"

fun str_of :: "pyval \<Rightarrow> string" where
  "str_of (PStr s) = s"
| "str_of v = []"

text \<open>
  \<^verbatim>\<open>a < b\<close> and \<^verbatim>\<open>a > b\<close>: numbers compare by value, strings lexicographically,
  every other pairing raises \<^verbatim>\<open>TypeError\<close>.  A comparison with a NaN does not raise.
\<close>

definition py_lt :: "pyval \<Rightarrow> pyval \<Rightarrow> error + bool" where
  "py_lt a b =
     (if is_number a \<and> is_number b then Inr (float_lt (num_of a) (num_of b))
      else if is_str a \<and> is_str b then Inr (str_of a < str_of b)
      else Inl TypeError)"

definition py_gt :: "pyval \<Rightarrow> pyval \<Rightarrow> error + bool" where
  "py_gt a b = py_lt b a"

text \<open>\<^verbatim>\<open>a == b\<close> never raises.\<close>

definition py_eq :: "pyval \<Rightarrow> pyval \<Rightarrow> bool" where
  "py_eq a b =
     (if is_number a \<and> is_number b then float_eq (num_of a) (num_of b)
      else a = b)"

text \<open>
  Equality as the comparison of tuples takes it: the same object, or \<^verbatim>\<open>==\<close>.  Two values
  other than NaN that are the same object are equal anyway.
\<close>

definition py_same :: "pyval \<Rightarrow> pyval \<Rightarrow> bool" where
  "py_same a b \<longleftrightarrow> a = b \<or> py_eq a b"

text \<open>Decimal text of an integer.\<close>

fun str_of_nat :: "nat \<Rightarrow> string" where
  "str_of_nat n =
     (if n < 10 then [''0123456789'' ! n]
      else str_of_nat (n div 10) @ [''0123456789'' ! (n mod 10)])"

declare str_of_nat.simps [simp del]

definition str_of_int :: "int \<Rightarrow> string" where
  "str_of_int i = (if i < 0 then CHR ''-'' # str_of_nat (nat (- i)) else str_of_nat (nat i))"

text \<open>The text of a value inside an f-string.\<close>

fun float_str :: "(rat \<Rightarrow> string) \<Rightarrow> pyfloat \<Rightarrow> string" where
  "float_str finite_str (Finite x) = finite_str x"
| "float_str finite_str PosInf = ''inf''"
| "float_str finite_str NegInf = ''-inf''"
| "float_str finite_str (NaN i) = ''nan''"

fun py_str :: "pyrt \<Rightarrow> pyval \<Rightarrow> string" where
  "py_str rt PNone = ''None''"
| "py_str rt (PBool b) = (if b then ''True'' else ''False'')"
| "py_str rt (PInt i) = str_of_int i"
| "py_str rt (PFloat x) = float_str (repr_float rt) x"
| "py_str rt (PStr s) = s"

text \<open>\<^verbatim>\<open>s.split('.')[0]\<close>, an \<^verbatim>\<open>AttributeError\<close> on anything but a string.\<close>

definition split_dot_first :: "pyval \<Rightarrow> error + string" where
  "split_dot_first v =
     (case v of PStr s \<Rightarrow> Inr (takeWhile (\<lambda>c. c \<noteq> CHR ''.'') s) | _ \<Rightarrow> Inl AttributeError)"

definition upper_char :: "char \<Rightarrow> char" where
  "upper_char c =
     (if CHR ''a'' \<le> c \<and> c \<le> CHR ''z'' then char_of (of_char c - (32::nat)) else c)"

definition lower_char :: "char \<Rightarrow> char" where
  "lower_char c =
     (if CHR ''A'' \<le> c \<and> c \<le> CHR ''Z'' then char_of (of_char c + (32::nat)) else c)"

text \<open>\<^verbatim>\<open>s.upper()\<close> on the ASCII letters; an \<^verbatim>\<open>AttributeError\<close> on anything but a string.\<close>

definition py_upper :: "pyval \<Rightarrow> error + string" where
  "py_upper v = (case v of PStr s \<Rightarrow> Inr (map upper_char s) | _ \<Rightarrow> Inl AttributeError)"

definition py_lower :: "string \<Rightarrow> string" where
  "py_lower s = map lower_char s"

text \<open>\<^verbatim>\<open>d.get(k)\<close> and \<^verbatim>\<open>d.get(k, default)\<close>; an absent key is \<open>None\<close>.\<close>

definition dget :: "pyval option \<Rightarrow> pyval" where
  "dget field = (case field of None \<Rightarrow> PNone | Some v \<Rightarrow> v)"

definition dget_default :: "pyval option \<Rightarrow> pyval \<Rightarrow> pyval" where
  "dget_default field d = (case field of None \<Rightarrow> d | Some v \<Rightarrow> v)"

section \<open>Data model\<close>

text \<open>
  One entry of \<^verbatim>\<open>info['formats']\<close>.  The program reads a stream only through
  \<^verbatim>\<open>get\<close> on fixed keys, so the dictionary is a record of these keys; \<open>None\<close> is an
  absent key, \<open>Some PNone\<close> a key whose value is \<^verbatim>\<open>None\<close>.
\<close>

record fmt =
  format_id :: "pyval option"
  ext :: "pyval option"
  vcodec :: "pyval option"
  acodec :: "pyval option"
  height :: "pyval option"
  fps :: "pyval option"
  tbr :: "pyval option"
  abr :: "pyval option"
  filesize :: "pyval option"
  filesize_approx :: "pyval option"

text \<open>The catalog record; \<open>formats = None\<close> is a record without the key \<^verbatim>\<open>'formats'\<close>.\<close>

record info =
  formats :: "fmt list option"

text \<open>The value stored in \<^verbatim>\<open>quality_dict\<close> by the video branch.\<close>

record entry =
  e_format :: fmt
  e_display :: string
  e_height :: pyval
  e_fps :: pyval
  e_codec :: string

text \<open>
  A Python \<^verbatim>\<open>dict\<close> keeps its keys in insertion order and overwrites in place: an
  association list with \<^const>\<open>map_of\<close> as lookup and \<^const>\<open>AList.update\<close> as store.
\<close>

type_synonym 'v pydict = "(string \<times> 'v) list"

section \<open>URL classifier\<close>

text \<open>\<^verbatim>\<open>needle in haystack\<close> on strings.\<close>

fun contains :: "string \<Rightarrow> string \<Rightarrow> bool" where
  "contains needle [] = (needle = [])"
| "contains needle (c # cs) = (take (length needle) (c # cs) = needle \<or> contains needle cs)"

definition playlist_indicators :: "string list" where
  "playlist_indicators = [''playlist'', ''list='', ''album'', ''channel'']"

definition is_playlist :: "string \<Rightarrow> bool" where
  "is_playlist url = list_ex (\<lambda>indicator. contains indicator (py_lower url)) playlist_indicators"

section \<open>Request builder\<close>

definition extract_height_from_format_id :: "string \<Rightarrow> string" where
  "extract_height_from_format_id fid = ''1080''"

record postprocessor =
  pp_key :: string
  preferredcodec :: string
  preferredquality :: string

record ydl_opts =
  opt_format :: string
  outtmpl :: string
  merge_output_format :: "string option"
  postprocessors :: "postprocessor list"

definition download_path :: string where
  "download_path = ''downloads''"

text \<open>
  The options \<^verbatim>\<open>download_video\<close> hands to the download engine; \<open>None\<close> when no branch
  binds \<^verbatim>\<open>ydl_opts\<close>.  \<open>output_path\<close> is \<open>None\<close> when the caller passes none.
\<close>

definition download_video_opts :: "string \<Rightarrow> int \<Rightarrow> string option \<Rightarrow> ydl_opts option" where
  "download_video_opts fid download_type output_path =
     (let out = (case output_path of None \<Rightarrow> download_path | Some p \<Rightarrow> p) in
      if download_type = 1 then
        Some \<lparr>opt_format = fid @ ''+bestaudio[ext=m4a]/best[height<='' @ extract_height_from_format_id fid @ '']'',
              outtmpl = out @ ''/%(title)s.%(ext)s'',
              merge_output_format = Some ''mp4'',
              postprocessors = []\<rparr>
      else if download_type = 2 then
        Some \<lparr>opt_format = fid @ ''/bestaudio'',
              outtmpl = out @ ''/%(title)s.%(ext)s'',
              merge_output_format = None,
              postprocessors = [\<lparr>pp_key = ''FFmpegExtractAudio'', preferredcodec = ''mp3'', preferredquality = ''192''\<rparr>]\<rparr>
      else if download_type = 3 then
        Some \<lparr>opt_format = fid @ ''+bestaudio[ext=m4a]/best[height<='' @ extract_height_from_format_id fid @ '']'',
              outtmpl = out @ ''/%(playlist)s/%(title)s.%(ext)s'',
              merge_output_format = Some ''mp4'',
              postprocessors = []\<rparr>
      else if download_type = 4 then
        Some \<lparr>opt_format = fid @ ''/bestaudio'',
              outtmpl = out @ ''/%(playlist)s/%(title)s.%(ext)s'',
              merge_output_format = None,
              postprocessors = [\<lparr>pp_key = ''FFmpegExtractAudio'', preferredcodec = ''mp3'', preferredquality = ''192''\<rparr>]\<rparr>
      else None)"

section \<open>Sorting\<close>

text \<open>
  \<^verbatim>\<open>sorted(xs, key=k, reverse=True)\<close> is a stable sort into descending order: elements
  with equal keys keep their order.  Here it is insertion from the right, each element
  placed in front of the first one that it is not less than.  The built-in compares keys
  with \<^verbatim>\<open><\<close> only and raises as soon as one comparison raises; in this program a
  comparison of two keys raises exactly when the two keys are of different kinds (a number
  against a string), and no comparison sort can finish without comparing across the
  kinds, so the call raises if and only if some two keys of the list do not compare.

  As long as no key is a NaN, \<^verbatim>\<open><\<close> orders the keys and every stable sort returns the
  list computed here.  With a NaN among the keys \<^verbatim>\<open><\<close> is no order, and what the built-in
  returns depends on the comparisons its algorithm makes.  The built-in reverses the list,
  takes the longest prefix in which no element is less than the one before it as a run
  that is in order already, and reverses the result again; a list in which no element is
  less than the one after it is therefore returned as it is, by the built-in as by the
  insertion here (\<open>sort_desc_run\<close> below).  The statements about a NaN key are about
  such lists only.
\<close>

fun insort_desc :: "('k \<Rightarrow> 'k \<Rightarrow> bool) \<Rightarrow> ('a \<Rightarrow> 'k) \<Rightarrow> 'a \<Rightarrow> 'a list \<Rightarrow> 'a list" where
  "insort_desc lt key x [] = [x]"
| "insort_desc lt key x (y # ys) =
     (if lt (key x) (key y) then y # insort_desc lt key x ys else x # y # ys)"

fun sort_desc :: "('k \<Rightarrow> 'k \<Rightarrow> bool) \<Rightarrow> ('a \<Rightarrow> 'k) \<Rightarrow> 'a list \<Rightarrow> 'a list" where
  "sort_desc lt key [] = []"
| "sort_desc lt key (x # xs) = insort_desc lt key x (sort_desc lt key xs)"

fun all_comparable :: "('k \<Rightarrow> 'k \<Rightarrow> error + bool) \<Rightarrow> 'k list \<Rightarrow> bool" where
  "all_comparable lt [] = True"
| "all_comparable lt (k # ks) =
     (list_all (\<lambda>k'. \<not> isl (lt k k') \<and> \<not> isl (lt k' k)) ks \<and> all_comparable lt ks)"

definition sorted_reverse ::
    "('k \<Rightarrow> 'k \<Rightarrow> error + bool) \<Rightarrow> ('a \<Rightarrow> 'k) \<Rightarrow> 'a list \<Rightarrow> error + 'a list" where
  "sorted_reverse lt key xs =
     (if all_comparable lt (map key xs)
      then Inr (sort_desc (\<lambda>a b. lt a b = Inr True) key xs)
      else Inl TypeError)"

text \<open>\<^verbatim>\<open>a < b\<close> on pairs: the first components that differ decide.\<close>

definition tuple_lt :: "pyval \<times> pyval \<Rightarrow> pyval \<times> pyval \<Rightarrow> error + bool" where
  "tuple_lt a b =
     (if \<not> py_same (fst a) (fst b) then py_lt (fst a) (fst b)
      else if \<not> py_same (snd a) (snd b) then py_lt (snd a) (snd b)
      else Inr False)"

section \<open>Quality ranker\<close>

subsection \<open>Video modes\<close>

definition video_formats :: "fmt list \<Rightarrow> fmt list" where
  "video_formats fs = filter (\<lambda>f. dget (vcodec f) \<noteq> PStr ''none'' \<and> truthy (dget (height f))) fs"

definition combined_formats :: "fmt list \<Rightarrow> fmt list" where
  "combined_formats fs =
     filter (\<lambda>f. dget (vcodec f) \<noteq> PStr ''none'' \<and> dget (acodec f) \<noteq> PStr ''none''
                 \<and> truthy (dget (height f))) fs"

definition premium_codecs :: "string list" where
  "premium_codecs = [''vp9'', ''av01'']"

text \<open>The label \<^verbatim>\<open>quality\<close>: \<^verbatim>\<open>f"{height}p{fps}"\<close> if \<^verbatim>\<open>fps and fps > 30\<close>, else \<^verbatim>\<open>f"{height}p"\<close>.\<close>

definition quality_label :: "pyrt \<Rightarrow> pyval \<Rightarrow> pyval \<Rightarrow> error + string" where
  "quality_label rt h r =
     (if truthy r then
        (case py_gt r (PInt 30) of
           Inl e \<Rightarrow> Inl e
         | Inr b \<Rightarrow> Inr (if b then py_str rt h @ ''p'' @ py_str rt r else py_str rt h @ ''p''))
      else Inr (py_str rt h @ ''p''))"

definition quality_key :: "string \<Rightarrow> string \<Rightarrow> string" where
  "quality_key quality codec =
     (if codec \<in> set premium_codecs then quality @ ''_premium'' else quality @ ''_standard'')"

definition tbr0 :: "fmt \<Rightarrow> pyval" where
  "tbr0 f = dget_default (tbr f) (PInt 0)"

text \<open>One pass of the loop over \<^verbatim>\<open>all_formats\<close>.\<close>

definition video_step :: "pyrt \<Rightarrow> fmt \<Rightarrow> entry pydict \<Rightarrow> error + entry pydict" where
  "video_step rt f quality_dict =
     (let h = dget (height f);
          r = dget_default (fps f) (PInt 30)
      in case split_dot_first (dget_default (vcodec f) (PStr [])) of
           Inl e \<Rightarrow> Inl e
         | Inr codec \<Rightarrow>
             if truthy h then
               (case quality_label rt h r of
                  Inl e \<Rightarrow> Inl e
                | Inr quality \<Rightarrow>
                    let k = quality_key quality codec;
                        new = \<lparr>e_format = f, e_display = quality, e_height = h,
                               e_fps = py_or r (PInt 30), e_codec = codec\<rparr>
                    in (case map_of quality_dict k of
                          None \<Rightarrow> Inr (AList.update k new quality_dict)
                        | Some cur \<Rightarrow>
                            (case py_gt (tbr0 f) (tbr0 (e_format cur)) of
                               Inl e \<Rightarrow> Inl e
                             | Inr b \<Rightarrow> Inr (if b then AList.update k new quality_dict
                                              else quality_dict))))
             else Inr quality_dict)"

fun video_loop :: "pyrt \<Rightarrow> fmt list \<Rightarrow> entry pydict \<Rightarrow> error + entry pydict" where
  "video_loop rt [] quality_dict = Inr quality_dict"
| "video_loop rt (f # fs) quality_dict =
     (case video_step rt f quality_dict of
        Inl e \<Rightarrow> Inl e
      | Inr quality_dict' \<Rightarrow> video_loop rt fs quality_dict')"

definition video_sort_key :: "entry \<Rightarrow> pyval \<times> pyval" where
  "video_sort_key x = (e_height x, e_fps x)"

definition video_qualities :: "pyrt \<Rightarrow> fmt list \<Rightarrow> error + (string \<times> fmt) list" where
  "video_qualities rt fs =
     (let all_formats = video_formats fs @ combined_formats fs
      in case video_loop rt all_formats [] of
           Inl e \<Rightarrow> Inl e
         | Inr quality_dict \<Rightarrow>
             (case sorted_reverse tuple_lt video_sort_key (map snd quality_dict) of
                Inl e \<Rightarrow> Inl e
              | Inr sorted_qualities \<Rightarrow>
                  Inr (map (\<lambda>q. (e_display q, e_format q)) sorted_qualities)))"

subsection \<open>Audio modes\<close>

definition audio_only_formats :: "fmt list \<Rightarrow> fmt list" where
  "audio_only_formats fs =
     filter (\<lambda>f. dget (acodec f) \<noteq> PStr ''none'' \<and> dget (vcodec f) = PStr ''none'') fs"

definition audio_formats :: "fmt list \<Rightarrow> fmt list" where
  "audio_formats fs =
     (if audio_only_formats fs = [] then filter (\<lambda>f. dget (acodec f) \<noteq> PStr ''none'') fs
      else audio_only_formats fs)"

text \<open>\<^verbatim>\<open>v if isinstance(v, (int, float)) and v > 0 else 0\<close>\<close>

definition safe_positive :: "pyval \<Rightarrow> pyval" where
  "safe_positive v = (if is_number v \<and> py_gt v (PInt 0) = Inr True then v else PInt 0)"

definition safe_abr :: "fmt \<Rightarrow> pyval" where
  "safe_abr f = safe_positive (py_or (dget (abr f)) (PInt 0))"

definition audio_label :: "pyrt \<Rightarrow> fmt \<Rightarrow> error + string" where
  "audio_label rt f =
     (let acodec' = dget_default (acodec f) (PStr ''unknown'')
      in case py_upper (dget_default (ext f) (PStr ''unknown'')) of
           Inl e \<Rightarrow> Inl e
         | Inr EXT \<Rightarrow>
             Inr (if py_gt (safe_abr f) (PInt 0) = Inr True
                  then EXT @ '' - '' @ py_str rt (safe_abr f) @ ''kbps ('' @ py_str rt acodec' @ '')''
                  else EXT @ '' ('' @ py_str rt acodec' @ '')''))"

definition audio_step :: "pyrt \<Rightarrow> fmt \<Rightarrow> fmt pydict \<Rightarrow> error + fmt pydict" where
  "audio_step rt f quality_dict =
     (case audio_label rt f of
        Inl e \<Rightarrow> Inl e
      | Inr quality \<Rightarrow>
          (case map_of quality_dict quality of
             None \<Rightarrow> Inr (AList.update quality f quality_dict)
           | Some cur \<Rightarrow>
               Inr (if py_gt (safe_abr f) (safe_abr cur) = Inr True
                    then AList.update quality f quality_dict else quality_dict)))"

fun audio_loop :: "pyrt \<Rightarrow> fmt list \<Rightarrow> fmt pydict \<Rightarrow> error + fmt pydict" where
  "audio_loop rt [] quality_dict = Inr quality_dict"
| "audio_loop rt (f # fs) quality_dict =
     (case audio_step rt f quality_dict of
        Inl e \<Rightarrow> Inl e
      | Inr quality_dict' \<Rightarrow> audio_loop rt fs quality_dict')"

text \<open>\<^verbatim>\<open>(x[1].get('abr') or 0) if isinstance(x[1].get('abr'), (int, float)) else 0\<close>\<close>

definition audio_sort_key :: "string \<times> fmt \<Rightarrow> pyval" where
  "audio_sort_key x =
     (if is_number (dget (abr (snd x))) then py_or (dget (abr (snd x))) (PInt 0) else PInt 0)"

definition audio_qualities :: "pyrt \<Rightarrow> fmt list \<Rightarrow> error + (string \<times> fmt) list" where
  "audio_qualities rt fs =
     (case audio_loop rt (audio_formats fs) [] of
        Inl e \<Rightarrow> Inl e
      | Inr quality_dict \<Rightarrow> sorted_reverse py_lt audio_sort_key quality_dict)"

subsection \<open>The ranker\<close>

definition get_available_qualities ::
    "pyrt \<Rightarrow> info option \<Rightarrow> int \<Rightarrow> error + (string \<times> fmt) list" where
  "get_available_qualities rt info_opt download_type =
     (case info_opt of
        None \<Rightarrow> Inr []
      | Some i \<Rightarrow>
          (case formats i of
             None \<Rightarrow> Inr []
           | Some fs \<Rightarrow>
               if download_type \<in> {1, 3} then video_qualities rt fs
               else if download_type \<in> {2, 4} then audio_qualities rt fs
               else Inr []))"

section \<open>Quality menu\<close>

text \<open>
  The text \<^verbatim>\<open>display_qualities\<close> prints for one option, after the running number:
  \<^verbatim>\<open>f"{quality_info}{size_info}"\<close> in the video modes, \<^verbatim>\<open>quality\<close> in the audio modes.
\<close>

definition video_line :: "pyrt \<Rightarrow> string \<times> fmt \<Rightarrow> error + string" where
  "video_line rt q =
     (let quality = fst q; f = snd q
      in case split_dot_first (dget_default (vcodec f) (PStr ''unknown'')) of
           Inl e \<Rightarrow> Inl e
         | Inr codec_info \<Rightarrow>
             (case (if truthy (dget (fps f)) then py_gt (dget (fps f)) (PInt 30) else Inr False) of
                Inl e \<Rightarrow> Inl e
              | Inr over30 \<Rightarrow>
                  let fps_info = (if over30 then '' '' @ py_str rt (dget (fps f)) @ ''fps'' else []);
                      quality_info = quality @ fps_info
                                     @ (if codec_info \<in> set premium_codecs then '' (Premium)'' else []);
                      size = py_or (dget (filesize f)) (dget (filesize_approx f))
                  in if truthy size then
                       (if is_number size
                        then Inr (quality_info @ '' (~'' @ float_str (mb_1f rt) (num_of size) @ ''MB)'')
                        else Inl TypeError)
                     else Inr quality_info))"

fun lines_of :: "('a \<Rightarrow> error + string) \<Rightarrow> 'a list \<Rightarrow> error + string list" where
  "lines_of line [] = Inr []"
| "lines_of line (q # qs) =
     (case line q of
        Inl e \<Rightarrow> Inl e
      | Inr l \<Rightarrow> (case lines_of line qs of Inl e \<Rightarrow> Inl e | Inr ls \<Rightarrow> Inr (l # ls)))"

definition display_qualities_lines ::
    "pyrt \<Rightarrow> (string \<times> fmt) list \<Rightarrow> int \<Rightarrow> error + string list" where
  "display_qualities_lines rt qualities download_type =
     (if download_type \<in> {1, 3} then lines_of (video_line rt) qualities
      else Inr (map fst qualities))"

section \<open>Notions used in the statements\<close>

text \<open>
  The label and the codec tier the video branch computes for a stream, and the pair the
  video branch sorts an option by, read off the option's backing stream.
\<close>

definition video_label :: "pyrt \<Rightarrow> fmt \<Rightarrow> error + string" where
  "video_label rt f = quality_label rt (dget (height f)) (dget_default (fps f) (PInt 30))"

definition video_codec :: "fmt \<Rightarrow> error + string" where
  "video_codec f = split_dot_first (dget_default (vcodec f) (PStr []))"

definition is_premium :: "fmt \<Rightarrow> bool" where
  "is_premium f = (case video_codec f of Inl e \<Rightarrow> False | Inr codec \<Rightarrow> codec \<in> set premium_codecs)"

definition option_height :: "string \<times> fmt \<Rightarrow> pyval" where
  "option_height q = dget (height (snd q))"

definition option_fps :: "string \<times> fmt \<Rightarrow> pyval" where
  "option_fps q = py_or (dget_default (fps (snd q)) (PInt 30)) (PInt 30)"

text \<open>The menu the user sees for a catalog: the ranker's output, rendered.\<close>

definition presented :: "pyrt \<Rightarrow> info option \<Rightarrow> int \<Rightarrow> error + string list" where
  "presented rt info_opt download_type =
     (case get_available_qualities rt info_opt download_type of
        Inl e \<Rightarrow> Inl e
      | Inr qualities \<Rightarrow> display_qualities_lines rt qualities download_type)"

text \<open>
  The order the ranker is to give its output.  In the video modes, between an option \<open>a\<close>
  and a later option \<open>b\<close>: the height of \<open>a\<close> is greater, or the heights are equal and
  the frame rate of \<open>a\<close> is not smaller.  In the audio modes the order is by the bitrate,
  an absent or non-numeric bitrate counting as zero.  No NaN is less than or equal to
  anything.
\<close>

fun is_nan :: "pyval \<Rightarrow> bool" where
  "is_nan (PFloat (NaN i)) = True"
| "is_nan v = False"

definition float_le :: "pyfloat \<Rightarrow> pyfloat \<Rightarrow> bool" where
  "float_le x y \<longleftrightarrow> float_lt x y \<or> float_eq x y"

definition video_desc :: "string \<times> fmt \<Rightarrow> string \<times> fmt \<Rightarrow> bool" where
  "video_desc a b \<longleftrightarrow>
     py_lt (option_height b) (option_height a) = Inr True
     \<or> (py_eq (option_height a) (option_height b)
        \<and> float_le (num_of (option_fps b)) (num_of (option_fps a)))"

definition bitrate_or_zero :: "fmt \<Rightarrow> pyfloat" where
  "bitrate_or_zero f = (if is_number (dget (abr f)) then num_of (dget (abr f)) else Finite 0)"

subsection \<open>Example catalogs\<close>

text \<open>A runtime for catalogs that hold no float and no file size.\<close>

definition rt0 :: pyrt where
  "rt0 = \<lparr>repr_float = (\<lambda>x. []), mb_1f = (\<lambda>x. [])\<rparr>"

definition empty_stream :: fmt where
  "empty_stream =
     \<lparr>format_id = None, ext = None, vcodec = None, acodec = None, height = None,
      fps = None, tbr = None, abr = None, filesize = None, filesize_approx = None\<rparr>"

definition catalog :: "fmt list \<Rightarrow> info option" where
  "catalog fs = Some \<lparr>formats = Some fs\<rparr>"

text \<open>Scenario A of the specification.\<close>

definition scenario_a :: "fmt list" where
  "scenario_a =
     [empty_stream\<lparr>height := Some (PInt 1080), vcodec := Some (PStr ''avc1''), abr := Some PNone\<rparr>,
      empty_stream\<lparr>height := Some (PInt 1080), vcodec := Some (PStr ''vp9''), abr := Some PNone\<rparr>,
      empty_stream\<lparr>height := Some (PInt 720), vcodec := Some (PStr ''avc1''), abr := Some PNone\<rparr>]"

text \<open>Two video-only streams of one resolution and codec, the first with \<^verbatim>\<open>'tbr': None\<close>.\<close>

definition tbr_none_catalog :: "fmt list" where
  "tbr_none_catalog =
     [empty_stream\<lparr>format_id := Some (PStr ''136''), height := Some (PInt 1080),
        vcodec := Some (PStr ''avc1''), acodec := Some (PStr ''none''), tbr := Some PNone\<rparr>,
      empty_stream\<lparr>format_id := Some (PStr ''137''), height := Some (PInt 1080),
        vcodec := Some (PStr ''avc1''), acodec := Some (PStr ''none''), tbr := Some (PInt 64)\<rparr>]"

text \<open>A combined stream, and an audio-only stream.\<close>

definition combined_360 :: fmt where
  "combined_360 =
     empty_stream\<lparr>format_id := Some (PStr ''18''), ext := Some (PStr ''mp4''), height := Some (PInt 360),
       vcodec := Some (PStr ''avc1''), acodec := Some (PStr ''mp4a''), abr := Some (PInt 96)\<rparr>"

definition audio_128 :: fmt where
  "audio_128 =
     empty_stream\<lparr>format_id := Some (PStr ''140''), ext := Some (PStr ''m4a''),
       vcodec := Some (PStr ''none''), acodec := Some (PStr ''mp4a''), abr := Some (PInt 128)\<rparr>"

text \<open>Three audio-only streams, the second with a NaN as its bitrate.\<close>

definition audio_64 :: fmt where
  "audio_64 =
     empty_stream\<lparr>format_id := Some (PStr ''249''), ext := Some (PStr ''m4a''),
       vcodec := Some (PStr ''none''), acodec := Some (PStr ''mp4a''), abr := Some (PInt 64)\<rparr>"

definition audio_nan :: fmt where
  "audio_nan =
     empty_stream\<lparr>format_id := Some (PStr ''141''), ext := Some (PStr ''m4a''),
       vcodec := Some (PStr ''none''), acodec := Some (PStr ''mp4a''), abr := Some (PFloat (NaN 0))\<rparr>"

definition nan_bitrate_catalog :: "fmt list" where
  "nan_bitrate_catalog = [audio_64, audio_nan, audio_128]"

text \<open>A catalog with video-only, combined and audio-only streams, and its two rankings.\<close>

definition v720_low :: fmt where
  "v720_low =
     empty_stream\<lparr>format_id := Some (PStr ''398''), ext := Some (PStr ''mp4''), height := Some (PInt 720),
       fps := Some (PInt 30), vcodec := Some (PStr ''avc1.4d401f''), acodec := Some (PStr ''none''),
       tbr := Some (PInt 1500)\<rparr>"

definition v720_high :: fmt where
  "v720_high =
     empty_stream\<lparr>format_id := Some (PStr ''136''), ext := Some (PStr ''mp4''), height := Some (PInt 720),
       fps := Some (PInt 30), vcodec := Some (PStr ''avc1.64001f''), acodec := Some (PStr ''none''),
       tbr := Some (PInt 2500)\<rparr>"

definition v1080_vp9 :: fmt where
  "v1080_vp9 =
     empty_stream\<lparr>format_id := Some (PStr ''248''), ext := Some (PStr ''webm''), height := Some (PInt 1080),
       fps := Some (PInt 30), vcodec := Some (PStr ''vp9''), acodec := Some (PStr ''none''),
       tbr := Some (PInt 2600)\<rparr>"

definition v1080_60 :: fmt where
  "v1080_60 =
     empty_stream\<lparr>format_id := Some (PStr ''299''), ext := Some (PStr ''mp4''), height := Some (PInt 1080),
       fps := Some (PInt 60), vcodec := Some (PStr ''avc1.64002a''), acodec := Some (PStr ''none''),
       tbr := Some (PInt 5000)\<rparr>"


definition audio_160 :: fmt where
  "audio_160 =
     empty_stream\<lparr>format_id := Some (PStr ''251''), ext := Some (PStr ''webm''),
       vcodec := Some (PStr ''none''), acodec := Some (PStr ''opus''), abr := Some (PInt 160)\<rparr>"

definition audio_unknown :: fmt where
  "audio_unknown =
     empty_stream\<lparr>format_id := Some (PStr ''139''), ext := Some (PStr ''m4a''),
       vcodec := Some (PStr ''none''), acodec := Some (PStr ''mp4a''), abr := Some PNone\<rparr>"

definition example_catalog :: "fmt list" where
  "example_catalog =
     [combined_360, v720_low, v720_high, v1080_vp9, v1080_60, audio_unknown, audio_128, audio_160]"

definition example_video_ranking :: "(string \<times> fmt) list" where
  "example_video_ranking =
     [(''1080p60'', v1080_60), (''1080p'', v1080_vp9), (''720p'', v720_high), (''360p'', combined_360)]"

definition example_audio_ranking :: "(string \<times> fmt) list" where
  "example_audio_ranking =
     [(''WEBM - 160kbps (opus)'', audio_160), (''M4A - 128kbps (mp4a)'', audio_128),
      (''M4A (mp4a)'', audio_unknown)]"

subsection \<open>Notions used in the proofs\<close>

text \<open>
  A value's place in the order of its kind: numbers by value, with the infinities below
  and above the finite ones, strings by text.  Two values that are not NaN and that Python
  compares without raising compare as their ranks do.
\<close>

fun float_rank :: "pyfloat \<Rightarrow> int \<times> rat" where
  "float_rank (Finite x) = (0, x)"
| "float_rank PosInf = (1, 0)"
| "float_rank NegInf = (- 1, 0)"
| "float_rank (NaN i) = (0, 0)"

definition rank :: "pyval \<Rightarrow> (int \<times> rat) \<times> string" where
  "rank v = (float_rank (num_of v), str_of v)"

definition no_nan :: "pyval \<times> pyval \<Rightarrow> bool" where
  "no_nan k \<longleftrightarrow> \<not> is_nan (fst k) \<and> \<not> is_nan (snd k)"

text \<open>
  The entry the video branch stores for a stream \<open>f\<close>, and the relation between a stream,
  its key in \<^verbatim>\<open>quality_dict\<close> and its entry.
\<close>

definition video_entry :: "fmt \<Rightarrow> string \<Rightarrow> string \<Rightarrow> entry" where
  "video_entry f quality codec =
     \<lparr>e_format = f, e_display = quality, e_height = dget (height f),
      e_fps = py_or (dget_default (fps f) (PInt 30)) (PInt 30), e_codec = codec\<rparr>"

definition grouped :: "pyrt \<Rightarrow> fmt \<Rightarrow> string \<Rightarrow> entry \<Rightarrow> bool" where
  "grouped rt f k e \<longleftrightarrow>
     (\<exists>quality codec. video_label rt f = Inr quality \<and> video_codec f = Inr codec
        \<and> k = quality_key quality codec \<and> e = video_entry f quality codec)"

text \<open>
  The invariant of the video loop after the streams \<open>P\<close>: keys are unique, every entry is the
  entry of a processed stream under that stream's key, and every processed stream finds
  under its key an entry whose stream it does not beat on \<^verbatim>\<open>tbr\<close>.
\<close>

definition vinv :: "pyrt \<Rightarrow> fmt set \<Rightarrow> entry pydict \<Rightarrow> bool" where
  "vinv rt P d \<longleftrightarrow>
     distinct (map fst d)
     \<and> (\<forall>(k, e)\<in>set d. e_format e \<in> P \<and> grouped rt (e_format e) k e)
     \<and> (\<forall>f\<in>P. \<exists>k new cur. grouped rt f k new \<and> map_of d k = Some cur
            \<and> py_gt (tbr0 f) (tbr0 (e_format cur)) \<noteq> Inr True)"

section \<open>URL classifier: properties\<close>

lemma contains_substring: "contains n h \<longleftrightarrow> (\<exists>p s. h = p @ n @ s)"
proof (induction h)
  case Nil
  then show ?case by auto
next
  case (Cons c cs)
  note IH = Cons.IH
  have pre: "take (length n) (c # cs) = n \<longleftrightarrow> (\<exists>s. c # cs = n @ s)"
    by (metis append_eq_conv_conj)
  show ?case
  proof
    assume "contains n (c # cs)"
    then consider "take (length n) (c # cs) = n" | "contains n cs" by auto
    then show "\<exists>p s. c # cs = p @ n @ s"
    proof cases
      case 1
      then obtain s where "c # cs = n @ s" using pre by blast
      then have "c # cs = [] @ n @ s" by simp
      then show ?thesis by blast
    next
      case 2
      then obtain p s where "cs = p @ n @ s" using IH by blast
      then have "c # cs = (c # p) @ n @ s" by simp
      then show ?thesis by blast
    qed
  next
    assume "\<exists>p s. c # cs = p @ n @ s"
    then obtain p s where ps: "c # cs = p @ n @ s" by blast
    show "contains n (c # cs)"
    proof (cases p)
      case Nil
      then have "c # cs = n @ s" using ps by simp
      then have "take (length n) (c # cs) = n" using pre by blast
      then show ?thesis by simp
    next
      case (Cons a p')
      then have "cs = p' @ n @ s" using ps by simp
      then have "contains n cs" using IH by blast
      then show ?thesis by simp
    qed
  qed
qed

text \<open>
  C7 (as amended).  \<open>is_playlist\<close> answers true exactly for the URLs whose lower-cased
  text has one of the four indicators \<^verbatim>\<open>playlist\<close>, \<^verbatim>\<open>list=\<close>, \<^verbatim>\<open>album\<close>,
  \<^verbatim>\<open>channel\<close> as a substring; nothing else in the URL matters.
\<close>

theorem is_playlist_four_indicators:
  "is_playlist url \<longleftrightarrow>
     (\<exists>p s. py_lower url = p @ ''playlist'' @ s) \<or> (\<exists>p s. py_lower url = p @ ''list='' @ s)
   \<or> (\<exists>p s. py_lower url = p @ ''album'' @ s) \<or> (\<exists>p s. py_lower url = p @ ''channel'' @ s)"
  unfolding is_playlist_def playlist_indicators_def by (simp add: contains_substring)

theorem is_playlist_four_indicators_witness:
  "is_playlist ''https://www.youtube.com/watch?v=abc&LIST=PL42''"
proof -
  have "py_lower ''https://www.youtube.com/watch?v=abc&LIST=PL42''
          = ''https://www.youtube.com/watch?v=abc&'' @ ''list='' @ ''pl42''"
    by code_simp
  then have "\<exists>p s. py_lower ''https://www.youtube.com/watch?v=abc&LIST=PL42'' = p @ ''list='' @ s"
    by blast
  then show ?thesis
    using is_playlist_four_indicators [of "''https://www.youtube.com/watch?v=abc&LIST=PL42''"]
    by blast
qed

text \<open>
  C7 as stated fails: an album URL holds neither \<^verbatim>\<open>list=\<close> nor \<^verbatim>\<open>playlist\<close>, and
  is classified as a playlist.
\<close>

theorem is_playlist_album_counterexample:
  "\<not> (is_playlist ''https://music.example.com/album/42'' \<longleftrightarrow>
        contains ''list='' (py_lower ''https://music.example.com/album/42'')
      \<or> contains ''playlist'' (py_lower ''https://music.example.com/album/42''))"
  by code_simp

section \<open>Request builder: properties\<close>

text \<open>
  C4.  In both video modes the fallback selector's resolution ceiling is the constant
  \<^verbatim>\<open>1080\<close>, whatever format identifier was chosen: the helper ignores its argument.
\<close>

theorem fallback_ceiling_is_constant:
  "extract_height_from_format_id fid = ''1080'' \<and>
   (download_type = 1 \<or> download_type = 3 \<longrightarrow>
      map_option opt_format (download_video_opts fid download_type output_path)
        = Some (fid @ ''+bestaudio[ext=m4a]/best[height<=1080]''))"
  by (auto simp: extract_height_from_format_id_def download_video_opts_def Let_def)

theorem fallback_ceiling_is_constant_witness:
  "extract_height_from_format_id ''313'' = ''1080'' \<and>
   map_option opt_format (download_video_opts ''313'' 3 None)
     = Some ''313+bestaudio[ext=m4a]/best[height<=1080]''"
  using fallback_ceiling_is_constant [of "''313''" 3 None] by simp

section \<open>Quality ranker: properties\<close>

subsection \<open>Modes outside the four defined ones\<close>

text \<open>
  C10.  For a download type other than 1, 2, 3 and 4 the ranker returns the empty list
  and raises nothing, for every catalog record (also \<^verbatim>\<open>None\<close> or one without formats).
\<close>

theorem unknown_mode_gives_empty_list:
  "download_type \<notin> {1, 2, 3, 4} \<Longrightarrow> get_available_qualities rt info_opt download_type = Inr []"
  by (auto simp: get_available_qualities_def split: option.splits)

theorem unknown_mode_gives_empty_list_witness:
  "(5::int) \<notin> {1, 2, 3, 4} \<and> get_available_qualities rt0 (catalog scenario_a) 5 = Inr []
   \<and> get_available_qualities rt0 None 0 = Inr []"
proof -
  have h5: "(5::int) \<notin> {1, 2, 3, 4}" and h0: "(0::int) \<notin> {1, 2, 3, 4}" by simp_all
  show ?thesis
    using h5 unknown_mode_gives_empty_list [OF h5, of rt0 "catalog scenario_a"]
      unknown_mode_gives_empty_list [OF h0, of rt0 None]
    by simp
qed

subsection \<open>Candidate pools\<close>

text \<open>
  C8 (as amended).  When the catalog has an audio-only stream, no stream is a candidate
  of both a video mode and an audio mode.  When it has none, the audio modes fall back to
  every stream with an audio codec, and the streams in both pools are exactly the combined
  ones.
\<close>

theorem candidate_pools:
  "(audio_only_formats fs \<noteq> [] \<longrightarrow>
      set (video_formats fs @ combined_formats fs) \<inter> set (audio_formats fs) = {})
   \<and> (audio_only_formats fs = [] \<longrightarrow>
      set (video_formats fs @ combined_formats fs) \<inter> set (audio_formats fs)
        = set (combined_formats fs))"
  by (auto simp: audio_formats_def audio_only_formats_def video_formats_def combined_formats_def)

theorem candidate_pools_witness:
  "audio_only_formats [combined_360, audio_128] \<noteq> []
   \<and> set (video_formats [combined_360, audio_128] @ combined_formats [combined_360, audio_128])
       \<inter> set (audio_formats [combined_360, audio_128]) = {}
   \<and> audio_only_formats [combined_360] = []
   \<and> set (video_formats [combined_360] @ combined_formats [combined_360])
       \<inter> set (audio_formats [combined_360]) = set (combined_formats [combined_360])"
proof -
  have a: "audio_only_formats [combined_360, audio_128] \<noteq> []" by code_simp
  have b: "audio_only_formats [combined_360] = []" by code_simp
  show ?thesis
    using a b candidate_pools [of "[combined_360, audio_128]"] candidate_pools [of "[combined_360]"]
    by blast
qed

text \<open>
  C8 as stated fails: with a catalog of one combined stream, that stream is a candidate
  of the video modes and of the audio modes.
\<close>

theorem candidate_pools_counterexample:
  "combined_360 \<in> set (video_formats [combined_360] @ combined_formats [combined_360])
   \<and> combined_360 \<in> set (audio_formats [combined_360])"
  by code_simp

subsection \<open>Scenario A\<close>

text \<open>
  C3 (as amended).  For the three streams of Scenario A, a 1080 \<^verbatim>\<open>avc1\<close> stream, a
  1080 \<^verbatim>\<open>vp9\<close> stream and a 720 \<^verbatim>\<open>avc1\<close> stream, the menu of either video mode
  reads \<^verbatim>\<open>1080p\<close>, \<^verbatim>\<open>1080p (Premium)\<close>, \<^verbatim>\<open>720p\<close>: the two 1080 options have
  equal sort keys and keep the order of the catalog.
\<close>

theorem scenario_a_menu:
  "presented rt (catalog scenario_a) 1 = Inr [''1080p'', ''1080p (Premium)'', ''720p'']
   \<and> presented rt (catalog scenario_a) 3 = Inr [''1080p'', ''1080p (Premium)'', ''720p'']"
  by code_simp

text \<open>C3 as stated fails: the menu is not the one with the premium option first.\<close>

theorem scenario_a_menu_counterexample:
  "presented rt0 (catalog scenario_a) 1 \<noteq> Inr [''1080p (Premium)'', ''1080p'', ''720p'']"
  by code_simp

subsection \<open>A bitrate of \<open>None\<close> in a video mode\<close>

text \<open>
  C2 fails on the code.  Two video-only streams of one resolution and codec tier, the
  first with \<^verbatim>\<open>'tbr': None\<close> and the second with \<^verbatim>\<open>'tbr': 64\<close>: the video branch
  compares \<^verbatim>\<open>64 > None\<close> and the call ends in a \<^verbatim>\<open>TypeError\<close>.
\<close>

theorem video_mode_raises_on_none_bitrate:
  "get_available_qualities rt (catalog tbr_none_catalog) 1 = Inl TypeError"
  by code_simp

subsection \<open>A NaN bitrate in an audio mode\<close>

text \<open>
  C5 fails on the code.  Three audio-only streams with the bitrates 64, NaN and 128, in
  this order.  The loop takes the NaN for zero, as \<^verbatim>\<open>abr > 0\<close> is false, and labels the
  stream without a bitrate; the sort key of lines 141 to 143 has no such test and is the
  NaN itself.  Neither \<^verbatim>\<open>64 < nan\<close> nor \<^verbatim>\<open>nan < 128\<close> holds, the sort leaves the three
  options as they are, and the ranker returns the stream of 64 kbps in front of the
  stream of 128 kbps.
\<close>

theorem nan_bitrate_breaks_audio_order:
  "get_available_qualities rt (catalog nan_bitrate_catalog) 2
     = Inr [(''M4A - 64kbps (mp4a)'', audio_64), (''M4A (mp4a)'', audio_nan),
            (''M4A - 128kbps (mp4a)'', audio_128)]"
  by code_simp

section \<open>Comparison and sorting: lemmas\<close>

lemma float_lt_rank:
  "\<not> is_nan (PFloat x) \<Longrightarrow> \<not> is_nan (PFloat y) \<Longrightarrow> float_lt x y = (float_rank x < float_rank y)"
  by (cases x; cases y) auto

lemma float_eq_rank:
  "\<not> is_nan (PFloat x) \<Longrightarrow> \<not> is_nan (PFloat y) \<Longrightarrow> float_eq x y = (float_rank x = float_rank y)"
  by (cases x; cases y) auto

lemma num_of_not_nan: "\<not> is_nan v \<Longrightarrow> \<not> is_nan (PFloat (num_of v))"
  by (cases v rule: is_nan.cases) auto

lemma py_lt_rank:
  assumes "\<not> is_nan a" and "\<not> is_nan b" and "py_lt a b = Inr r"
  shows "r = (rank a < rank b)"
proof (cases "is_number a \<and> is_number b")
  case True
  then have "r = float_lt (num_of a) (num_of b)" using assms(3) by (auto simp: py_lt_def)
  also have "\<dots> = (float_rank (num_of a) < float_rank (num_of b))"
    using assms(1,2) by (intro float_lt_rank num_of_not_nan)
  also have "\<dots> = (rank a < rank b)"
    using True by (cases a; cases b) (auto simp: rank_def)
  finally show ?thesis .
next
  case False
  then have s: "is_str a \<and> is_str b" and "r = (str_of a < str_of b)"
    using assms(3) by (auto simp: py_lt_def split: if_splits)
  then show ?thesis by (cases a; cases b) (auto simp: rank_def)
qed

lemma py_eq_refl: "\<not> is_nan a \<Longrightarrow> py_eq a a"
  by (cases a rule: is_nan.cases) (auto simp: py_eq_def)

lemma py_same_eq: "\<not> is_nan a \<Longrightarrow> py_same a b = py_eq a b"
  by (auto simp: py_same_def py_eq_refl)

lemma py_eq_rank:
  assumes "\<not> is_nan a" and "\<not> is_nan b" and "py_eq a b"
  shows "rank a = rank b"
proof (cases "is_number a \<and> is_number b")
  case True
  then have "float_eq (num_of a) (num_of b)" using assms(3) by (simp add: py_eq_def)
  then have "float_rank (num_of a) = float_rank (num_of b)"
    using float_eq_rank[OF num_of_not_nan[OF assms(1)] num_of_not_nan[OF assms(2)]] by simp
  then show ?thesis using True by (cases a; cases b) (auto simp: rank_def)
next
  case False
  then show ?thesis using assms(3) by (auto simp: py_eq_def)
qed

lemma py_lt_neq_rank:
  assumes "\<not> is_nan a" and "\<not> is_nan b" and "py_lt a b = Inr r" and "\<not> py_eq a b"
  shows "rank a \<noteq> rank b"
proof (cases "is_number a \<and> is_number b")
  case True
  then have "\<not> float_eq (num_of a) (num_of b)" using assms(4) by (simp add: py_eq_def)
  then have "float_rank (num_of a) \<noteq> float_rank (num_of b)"
    using float_eq_rank[OF num_of_not_nan[OF assms(1)] num_of_not_nan[OF assms(2)]] by simp
  then show ?thesis by (simp add: rank_def)
next
  case False
  then have "is_str a \<and> is_str b" using assms(3) by (auto simp: py_lt_def split: if_splits)
  then show ?thesis using assms(4) by (cases a; cases b) (auto simp: rank_def py_eq_def)
qed

lemma lex_less_fst:
  fixes x x' :: "'a::linorder" and y y' :: "'b::linorder"
  shows "x \<noteq> x' \<Longrightarrow> ((x, y) < (x', y')) = (x < x')"
  by auto

lemma lex_less_snd:
  fixes x :: "'a::linorder" and y y' :: "'b::linorder"
  shows "((x, y) < (x, y')) = (y < y')"
  by auto

lemma tuple_lt_rank:
  assumes "no_nan a" and "no_nan b" and "tuple_lt a b = Inr r"
  shows "r = ((rank (fst a), rank (snd a)) < (rank (fst b), rank (snd b)))"
proof -
  have n: "\<not> is_nan (fst a)" "\<not> is_nan (snd a)" "\<not> is_nan (fst b)" "\<not> is_nan (snd b)"
    using assms(1,2) by (auto simp: no_nan_def)
  have s1: "py_same (fst a) (fst b) = py_eq (fst a) (fst b)" using n by (simp add: py_same_eq)
  have s2: "py_same (snd a) (snd b) = py_eq (snd a) (snd b)" using n by (simp add: py_same_eq)
  show ?thesis
  proof (cases "py_eq (fst a) (fst b)")
    case False
    then have lt: "py_lt (fst a) (fst b) = Inr r" using assms(3) s1 by (simp add: tuple_lt_def)
    have "rank (fst a) \<noteq> rank (fst b)" using py_lt_neq_rank[OF n(1) n(3) lt False] .
    moreover have "r = (rank (fst a) < rank (fst b))" using py_lt_rank[OF n(1) n(3) lt] .
    ultimately show ?thesis by (metis lex_less_fst)
  next
    case True
    then have eq1: "rank (fst a) = rank (fst b)" using py_eq_rank[OF n(1) n(3)] by simp
    show ?thesis
    proof (cases "py_eq (snd a) (snd b)")
      case False
      then have lt: "py_lt (snd a) (snd b) = Inr r" using assms(3) True s1 s2 by (simp add: tuple_lt_def)
      have "r = (rank (snd a) < rank (snd b))" using py_lt_rank[OF n(2) n(4) lt] .
      then show ?thesis using eq1 by (metis lex_less_snd)
    next
      case eq: True
      then have "rank (snd a) = rank (snd b)" using py_eq_rank[OF n(2) n(4)] by simp
      moreover have "r = False" using assms(3) True eq s1 s2 by (simp add: tuple_lt_def)
      ultimately show ?thesis using eq1 by (metis less_irrefl)
    qed
  qed
qed

lemma mset_insort_desc: "mset (insort_desc lt key x ys) = add_mset x (mset ys)"
  by (induction ys) auto

lemma mset_sort_desc: "mset (sort_desc lt key xs) = mset xs"
  by (induction xs) (auto simp: mset_insort_desc)

lemma set_insort_desc: "set (insort_desc lt key x ys) = insert x (set ys)"
  by (induction ys) auto

lemma set_sort_desc: "set (sort_desc lt key xs) = set xs"
  by (induction xs) (auto simp: set_insort_desc)

lemma sort_desc_run: "successively (\<lambda>a b. \<not> lt (key a) (key b)) xs \<Longrightarrow> sort_desc lt key xs = xs"
proof (induction xs)
  case Nil
  then show ?case by simp
next
  case (Cons x xs)
  then show ?case by (cases xs) auto
qed

lemma sorted_insort_desc:
  fixes rk :: "'k \<Rightarrow> 'r::linorder"
  assumes rk: "\<And>a b r. good a \<Longrightarrow> good b \<Longrightarrow> lt a b = Inr r \<Longrightarrow> r = (rk a < rk b)"
    and gx: "good (key x)"
    and gys: "\<forall>y\<in>set ys. good (key y)"
    and cmp: "\<forall>y\<in>set ys. \<not> isl (lt (key x) (key y)) \<and> \<not> isl (lt (key y) (key x))"
    and srt: "sorted_wrt (\<lambda>a b. lt (key a) (key b) = Inr False) ys"
  shows "sorted_wrt (\<lambda>a b. lt (key a) (key b) = Inr False) (insort_desc (\<lambda>a b. lt a b = Inr True) key x ys)"
  using gys cmp srt
proof (induction ys)
  case Nil
  then show ?case by simp
next
  case (Cons y ys)
  have gy: "good (key y)" using Cons.prems(1) by simp
  obtain r where r: "lt (key x) (key y) = Inr r"
    using Cons.prems(2) by (cases "lt (key x) (key y)") auto
  obtain r' where r': "lt (key y) (key x) = Inr r'"
    using Cons.prems(2) by (cases "lt (key y) (key x)") auto
  show ?case
  proof (cases r)
    case True
    then have "rk (key x) < rk (key y)" using rk[OF gx gy r] by simp
    then have "\<not> r'" using rk[OF gy gx r'] by auto
    then have yx: "lt (key y) (key x) = Inr False" using r' by simp
    have "sorted_wrt (\<lambda>a b. lt (key a) (key b) = Inr False) (insort_desc (\<lambda>a b. lt a b = Inr True) key x ys)"
      using Cons by simp
    then show ?thesis using Cons.prems(3) yx r True by (auto simp: set_insort_desc)
  next
    case False
    then have xy: "rk (key y) \<le> rk (key x)" using rk[OF gx gy r] by auto
    have "lt (key x) (key z) = Inr False" if z: "z \<in> set ys" for z
    proof -
      have gz: "good (key z)" using Cons.prems(1) z by simp
      obtain q where q: "lt (key x) (key z) = Inr q"
        using Cons.prems(2) z by (cases "lt (key x) (key z)") auto
      have yz: "lt (key y) (key z) = Inr False" using Cons.prems(3) z by simp
      have "rk (key z) \<le> rk (key y)" using rk[OF gy gz yz] by auto
      then have "\<not> q" using rk[OF gx gz q] xy by auto
      then show ?thesis using q by simp
    qed
    then show ?thesis using Cons.prems(3) r False by auto
  qed
qed

lemma sorted_sort_desc:
  fixes rk :: "'k \<Rightarrow> 'r::linorder"
  assumes rk: "\<And>a b r. good a \<Longrightarrow> good b \<Longrightarrow> lt a b = Inr r \<Longrightarrow> r = (rk a < rk b)"
    and good: "\<forall>x\<in>set xs. good (key x)"
    and cmp: "all_comparable lt (map key xs)"
  shows "sorted_wrt (\<lambda>a b. lt (key a) (key b) = Inr False) (sort_desc (\<lambda>a b. lt a b = Inr True) key xs)"
  using good cmp
proof (induction xs)
  case Nil
  then show ?case by simp
next
  case (Cons x xs)
  let ?s = "sort_desc (\<lambda>a b. lt a b = Inr True) key xs"
  have good': "\<forall>x\<in>set xs. good (key x)" using Cons.prems(1) by simp
  have cmp': "all_comparable lt (map key xs)" using Cons.prems(2) by simp
  have gx: "good (key x)" using Cons.prems(1) by simp
  have 0: "\<forall>y\<in>set ?s. good (key y)" using good' by (simp add: set_sort_desc)
  have 1: "\<forall>y\<in>set ?s. \<not> isl (lt (key x) (key y)) \<and> \<not> isl (lt (key y) (key x))"
    using Cons.prems(2) by (simp add: set_sort_desc list_all_iff)
  have 2: "sorted_wrt (\<lambda>a b. lt (key a) (key b) = Inr False) ?s"
    using Cons.IH[OF good' cmp'] .
  have "sorted_wrt (\<lambda>a b. lt (key a) (key b) = Inr False)
          (insort_desc (\<lambda>a b. lt a b = Inr True) key x ?s)"
  proof (rule sorted_insort_desc[where good = good and rk = rk])
    show "r = (rk a < rk b)" if "good a" "good b" "lt a b = Inr r" for a b r
      using that by (rule rk)
  qed (use gx 0 1 2 in blast)+
  then show ?case by simp
qed

section \<open>Video branch: the loop invariant\<close>

lemma video_step_cases:
  assumes "video_step rt f d = Inr d'" and "truthy (dget (height f))"
  obtains k new where "grouped rt f k new" "map_of d k = None" "d' = AList.update k new d"
  | k new cur where "grouped rt f k new" "map_of d k = Some cur"
      "py_gt (tbr0 f) (tbr0 (e_format cur)) = Inr True" "d' = AList.update k new d"
  | k new cur where "grouped rt f k new" "map_of d k = Some cur"
      "py_gt (tbr0 f) (tbr0 (e_format cur)) = Inr False" "d' = d"
proof -
  from assms obtain codec where c: "video_codec f = Inr codec"
    by (cases "video_codec f") (auto simp: video_step_def video_codec_def Let_def)
  from assms c obtain quality where q: "video_label rt f = Inr quality"
    by (cases "video_label rt f") (auto simp: video_step_def video_codec_def video_label_def Let_def)
  let ?k = "quality_key quality codec"
  let ?new = "video_entry f quality codec"
  have g: "grouped rt f ?k ?new" using c q by (auto simp: grouped_def)
  show ?thesis
  proof (cases "map_of d ?k")
    case None
    then have "d' = AList.update ?k ?new d"
      using assms c q by (simp add: video_step_def video_codec_def video_label_def video_entry_def Let_def)
    then show ?thesis using that(1) g None by blast
  next
    case (Some cur)
    then obtain b where b: "py_gt (tbr0 f) (tbr0 (e_format cur)) = Inr b"
      using assms c q
      by (cases "py_gt (tbr0 f) (tbr0 (e_format cur))")
         (auto simp: video_step_def video_codec_def video_label_def video_entry_def Let_def)
    then have d': "d' = (if b then AList.update ?k ?new d else d)"
      using assms c q Some
      by (auto simp: video_step_def video_codec_def video_label_def video_entry_def Let_def)
    show ?thesis
    proof (cases b)
      case True
      then show ?thesis using that(2) g Some b d' by auto
    next
      case False
      then show ?thesis using that(3) g Some b d' by auto
    qed
  qed
qed

lemma float_lt_irrefl: "\<not> float_lt x x"
  by (cases x) auto

lemma float_lt_trans: "float_lt x y \<Longrightarrow> float_lt y z \<Longrightarrow> float_lt x z"
  by (cases x; cases y; cases z) auto

lemma py_gt_irrefl: "py_gt a a \<noteq> Inr True"
  by (auto simp: py_gt_def py_lt_def float_lt_irrefl)

lemma number_not_str: "is_number v \<Longrightarrow> \<not> is_str v"
  by (cases v) auto

lemma py_gt_trans: "py_gt a b = Inr True \<Longrightarrow> py_gt b c = Inr True \<Longrightarrow> py_gt a c = Inr True"
  by (auto simp: py_gt_def py_lt_def split: if_splits dest: number_not_str float_lt_trans)


lemma grouped_format: "grouped rt f k e \<Longrightarrow> e_format e = f"
  by (auto simp: grouped_def video_entry_def)

lemma set_update_subset: "set (AList.update k v d) \<subseteq> insert (k, v) (set d)"
  by (induction d) auto

lemma vinv_step:
  assumes step: "video_step rt f d = Inr d'" and h: "truthy (dget (height f))" and inv: "vinv rt P d"
  shows "vinv rt (insert f P) d'"
proof -
  from inv have dist: "distinct (map fst d)"
    and ent: "\<And>k e. (k, e) \<in> set d \<Longrightarrow> e_format e \<in> P \<and> grouped rt (e_format e) k e"
    and cov: "\<And>g. g \<in> P \<Longrightarrow> \<exists>k new cur. grouped rt g k new \<and> map_of d k = Some cur
            \<and> py_gt (tbr0 g) (tbr0 (e_format cur)) \<noteq> Inr True"
    by (auto simp: vinv_def)
  from step h show ?thesis
  proof (cases rule: video_step_cases)
    case (1 k new)
    have fnew: "e_format new = f" using 1(1) by (rule grouped_format)
    have a: "distinct (map fst d')" using dist 1(3) by (simp add: distinct_update)
    have b: "e_format e \<in> insert f P \<and> grouped rt (e_format e) k' e" if "(k', e) \<in> set d'" for k' e
    proof -
      from that 1(3) set_update_subset[of k new d] have "(k', e) = (k, new) \<or> (k', e) \<in> set d" by auto
      then show ?thesis using ent 1(1) fnew by auto
    qed
    have c: "\<exists>k' new' cur. grouped rt g k' new' \<and> map_of d' k' = Some cur
            \<and> py_gt (tbr0 g) (tbr0 (e_format cur)) \<noteq> Inr True" if "g \<in> insert f P" for g
    proof (cases "g = f")
      case True
      have "map_of d' k = Some new" using 1(3) by (simp add: update_conv')
      then show ?thesis using True 1(1) fnew py_gt_irrefl by metis
    next
      case False
      then have "g \<in> P" using that by simp
      then obtain k' new' cur where g: "grouped rt g k' new'" "map_of d k' = Some cur"
        "py_gt (tbr0 g) (tbr0 (e_format cur)) \<noteq> Inr True" using cov by blast
      then have "k' \<noteq> k" using 1(2) by auto
      then have "map_of d' k' = Some cur" using 1(3) g(2) by (simp add: update_conv')
      then show ?thesis using g by blast
    qed
    show ?thesis unfolding vinv_def using a b c by auto
  next
    case (2 k new cur)
    have fnew: "e_format new = f" using 2(1) by (rule grouped_format)
    have a: "distinct (map fst d')" using dist 2(4) by (simp add: distinct_update)
    have b: "e_format e \<in> insert f P \<and> grouped rt (e_format e) k' e" if "(k', e) \<in> set d'" for k' e
    proof -
      from that 2(4) set_update_subset[of k new d] have "(k', e) = (k, new) \<or> (k', e) \<in> set d" by auto
      then show ?thesis using ent 2(1) fnew by auto
    qed
    have c: "\<exists>k' new' cur'. grouped rt g k' new' \<and> map_of d' k' = Some cur'
            \<and> py_gt (tbr0 g) (tbr0 (e_format cur')) \<noteq> Inr True" if "g \<in> insert f P" for g
    proof (cases "g = f")
      case True
      have "map_of d' k = Some new" using 2(4) by (simp add: update_conv')
      then show ?thesis using True 2(1) fnew py_gt_irrefl by metis
    next
      case False
      then have "g \<in> P" using that by simp
      then obtain k' new' cur' where g: "grouped rt g k' new'" "map_of d k' = Some cur'"
        "py_gt (tbr0 g) (tbr0 (e_format cur')) \<noteq> Inr True" using cov by blast
      show ?thesis
      proof (cases "k' = k")
        case True
        then have "cur' = cur" using g(2) 2(2) by simp
        then have "py_gt (tbr0 g) (tbr0 f) \<noteq> Inr True"
          using g(3) 2(3) py_gt_trans by blast
        moreover have "map_of d' k' = Some new" using True 2(4) by (simp add: update_conv')
        ultimately show ?thesis using g(1) fnew by blast
      next
        case False
        then have "map_of d' k' = Some cur'" using 2(4) g(2) by (simp add: update_conv')
        then show ?thesis using g by blast
      qed
    qed
    show ?thesis unfolding vinv_def using a b c by auto
  next
    case (3 k new cur)
    have c: "\<exists>k' new' cur'. grouped rt g k' new' \<and> map_of d k' = Some cur'
            \<and> py_gt (tbr0 g) (tbr0 (e_format cur')) \<noteq> Inr True" if "g \<in> insert f P" for g
    proof (cases "g = f")
      case True
      then show ?thesis using 3 by auto
    next
      case False
      then show ?thesis using that cov by auto
    qed
    show ?thesis unfolding vinv_def using dist ent c 3(4) by auto
  qed
qed

lemma vinv_loop:
  "video_loop rt fs d = Inr d' \<Longrightarrow> \<forall>f\<in>set fs. truthy (dget (height f)) \<Longrightarrow> vinv rt P d
     \<Longrightarrow> vinv rt (P \<union> set fs) d'"
proof (induction fs arbitrary: d P)
  case Nil
  then show ?case by simp
next
  case (Cons f fs)
  from Cons.prems(1) obtain d1 where s: "video_step rt f d = Inr d1" and l: "video_loop rt fs d1 = Inr d'"
    by (cases "video_step rt f d") auto
  have hs: "\<forall>f\<in>set fs. truthy (dget (height f))" using Cons.prems(2) by simp
  have "vinv rt (insert f P) d1" using vinv_step[OF s _ Cons.prems(3)] Cons.prems(2) by simp
  then have "vinv rt (insert f P \<union> set fs) d'" by (rule Cons.IH[OF l hs])
  then show ?case by simp
qed



lemma grouped_key_text:
  assumes "grouped rt f k e"
  shows "k = e_display e @ (if is_premium (e_format e) then ''_premium'' else ''_standard'')"
proof -
  from assms obtain quality codec where c: "video_codec f = Inr codec"
    and k: "k = quality_key quality codec" and e: "e = video_entry f quality codec"
    by (auto simp: grouped_def)
  have "e_display e = quality" "e_format e = f" using e by (simp_all add: video_entry_def)
  moreover have "is_premium f = (codec \<in> set premium_codecs)" using c by (simp add: is_premium_def)
  ultimately show ?thesis using k by (simp add: quality_key_def)
qed


lemma grouped_sort_key:
  "grouped rt f k e \<Longrightarrow> video_sort_key e = (option_height (l, f), option_fps (l, f))"
  by (auto simp: grouped_def video_entry_def video_sort_key_def option_height_def option_fps_def)

lemma quality_label_fps_number: "quality_label rt h r = Inr q \<Longrightarrow> is_number (py_or r (PInt 30))"
  by (auto simp: quality_label_def py_or_def py_gt_def py_lt_def split: if_splits sum.splits)

lemma grouped_fps_number: "grouped rt f k e \<Longrightarrow> is_number (option_fps (l, f))"
  by (auto simp: grouped_def video_label_def option_fps_def dest: quality_label_fps_number)


lemma distinct_map_imp: "distinct (map f xs) \<Longrightarrow> distinct xs"
  by (simp add: distinct_map)


lemma mset_distinct_map: "mset xs = mset ys \<Longrightarrow> distinct (map h xs) = distinct (map h ys)"
  by (metis mset_eq_imp_distinct_iff mset_map)

lemma video_qualities_sorting:
  assumes "video_qualities rt fs = Inr qs"
  obtains d sq where "vinv rt (set (video_formats fs)) d"
    and "all_comparable tuple_lt (map video_sort_key (map snd d))"
    and "sq = sort_desc (\<lambda>a b. tuple_lt a b = Inr True) video_sort_key (map snd d)"
    and "qs = map (\<lambda>q. (e_display q, e_format q)) sq"
proof -
  let ?all = "video_formats fs @ combined_formats fs"
  from assms obtain d where d: "video_loop rt ?all [] = Inr d"
    by (cases "video_loop rt ?all []") (auto simp: video_qualities_def Let_def)
  from assms d obtain sq where sq: "sorted_reverse tuple_lt video_sort_key (map snd d) = Inr sq"
    and qs: "qs = map (\<lambda>q. (e_display q, e_format q)) sq"
    by (cases "sorted_reverse tuple_lt video_sort_key (map snd d)") (auto simp: video_qualities_def Let_def)
  have hs: "\<forall>f\<in>set ?all. truthy (dget (height f))"
    by (auto simp: video_formats_def combined_formats_def)
  have "vinv rt {} []" by (simp add: vinv_def)
  from vinv_loop[OF d hs this] have "vinv rt (set ?all) d" by simp
  moreover have "set ?all = set (video_formats fs)"
    by (auto simp: video_formats_def combined_formats_def)
  ultimately have inv: "vinv rt (set (video_formats fs)) d" by simp
  from sq have cmp: "all_comparable tuple_lt (map video_sort_key (map snd d))"
    and sqd: "sq = sort_desc (\<lambda>a b. tuple_lt a b = Inr True) video_sort_key (map snd d)"
    by (auto simp: sorted_reverse_def split: if_splits)
  show ?thesis using that inv cmp sqd qs by blast
qed

lemma video_qualities_result:
  assumes "video_qualities rt fs = Inr qs"
  obtains d sq where "vinv rt (set (video_formats fs)) d"
    and "mset sq = mset (map snd d)"
    and "qs = map (\<lambda>q. (e_display q, e_format q)) sq"
proof -
  from assms obtain d sq where inv: "vinv rt (set (video_formats fs)) d"
    and sqd: "sq = sort_desc (\<lambda>a b. tuple_lt a b = Inr True) video_sort_key (map snd d)"
    and qs: "qs = map (\<lambda>q. (e_display q, e_format q)) sq"
    by (rule video_qualities_sorting)
  have "mset sq = mset (map snd d)" using sqd by (simp add: mset_sort_desc)
  then show ?thesis using that inv qs by blast
qed

lemma video_labels_distinct:
  assumes "video_qualities rt fs = Inr qs"
  shows "distinct (map (\<lambda>q. (fst q, is_premium (snd q))) qs)"
proof -
  from assms obtain d sq where inv: "vinv rt (set (video_formats fs)) d"
    and m: "mset sq = mset (map snd d)"
    and qs: "qs = map (\<lambda>q. (e_display q, e_format q)) sq"
    by (rule video_qualities_result)
  let ?h = "\<lambda>e. (e_display e, is_premium (e_format e))"
  let ?kf = "\<lambda>p. fst p @ (if snd p then ''_premium'' else ''_standard'')"
  have "map (\<lambda>q. (fst q, is_premium (snd q))) qs = map ?h sq" using qs by simp
  moreover have "distinct (map ?h sq) = distinct (map ?h (map snd d))"
    using m by (rule mset_distinct_map)
  moreover have "distinct (map ?h (map snd d))"
  proof -
    have "fst x = ?kf (?h (snd x))" if "x \<in> set d" for x
    proof -
      obtain k e where x: "x = (k, e)" by (cases x)
      then have "grouped rt (e_format e) k e" using inv that by (auto simp: vinv_def)
      then show ?thesis using x grouped_key_text by fastforce
    qed
    then have eq: "map fst d = map ?kf (map ?h (map snd d))" by simp
    have "distinct (map fst d)" using inv by (simp add: vinv_def)
    then have "distinct (map ?kf (map ?h (map snd d)))" unfolding eq .
    then show ?thesis by (rule distinct_map_imp)
  qed
  ultimately show ?thesis by simp
qed

lemma float_not_lt_le:
  "\<not> is_nan (PFloat x) \<Longrightarrow> \<not> is_nan (PFloat y) \<Longrightarrow> \<not> float_lt x y \<Longrightarrow> float_le y x"
  by (cases x; cases y) (auto simp: float_le_def)

lemma float_eq_not_lt: "float_eq x y \<Longrightarrow> \<not> float_lt x y"
  by (cases x; cases y) auto

lemma py_lt_sym_comparable: "py_lt a b = Inr r \<Longrightarrow> \<exists>r'. py_lt b a = Inr r'"
  by (auto simp: py_lt_def split: if_splits)

lemma tuple_lt_False_desc:
  assumes lt: "tuple_lt (ha, ra) (hb, rb) = Inr False" and na: "is_number ra" and nb: "is_number rb"
    and ga: "no_nan (ha, ra)" and gb: "no_nan (hb, rb)"
  shows "py_lt hb ha = Inr True \<or> (py_eq ha hb \<and> float_le (num_of rb) (num_of ra))"
proof -
  have n: "\<not> is_nan ha" "\<not> is_nan ra" "\<not> is_nan hb" "\<not> is_nan rb"
    using ga gb by (auto simp: no_nan_def)
  have s1: "py_same ha hb = py_eq ha hb" using n by (simp add: py_same_eq)
  have s2: "py_same ra rb = py_eq ra rb" using n by (simp add: py_same_eq)
  show ?thesis
  proof (cases "py_eq ha hb")
    case False
    then have l: "py_lt ha hb = Inr False" using lt s1 by (simp add: tuple_lt_def)
    then obtain r' where r': "py_lt hb ha = Inr r'" using py_lt_sym_comparable by blast
    have "\<not> rank ha < rank hb" using py_lt_rank[OF n(1) n(3) l] by simp
    moreover have "rank ha \<noteq> rank hb" using py_lt_neq_rank[OF n(1) n(3) l False] .
    ultimately have "rank hb < rank ha" by auto
    then have r' using py_lt_rank[OF n(3) n(1) r'] by simp
    then show ?thesis using r' by simp
  next
    case True
    have "\<not> float_lt (num_of ra) (num_of rb)"
    proof (cases "py_eq ra rb")
      case False
      then have "py_lt ra rb = Inr False" using lt True s1 s2 by (simp add: tuple_lt_def)
      then show ?thesis using na nb by (simp add: py_lt_def)
    next
      case eq: True
      then have "float_eq (num_of ra) (num_of rb)" using na nb by (simp add: py_eq_def)
      then show ?thesis by (rule float_eq_not_lt)
    qed
    then have "float_le (num_of rb) (num_of ra)"
      using float_not_lt_le[OF num_of_not_nan[OF n(2)] num_of_not_nan[OF n(4)]] by simp
    then show ?thesis using True by simp
  qed
qed

lemma option_fps_not_nan: "\<not> is_nan (dget (fps f)) \<Longrightarrow> \<not> is_nan (option_fps (l, f))"
  by (cases "fps f") (auto simp: option_fps_def py_or_def dget_def dget_default_def)

lemma video_sorted:
  assumes ok: "video_qualities rt fs = Inr qs"
    and nn: "\<forall>f\<in>set fs. \<not> is_nan (dget (height f)) \<and> \<not> is_nan (dget (fps f))"
  shows "sorted_wrt video_desc qs"
proof -
  from ok obtain d sq where inv: "vinv rt (set (video_formats fs)) d"
    and cmp: "all_comparable tuple_lt (map video_sort_key (map snd d))"
    and sqd: "sq = sort_desc (\<lambda>a b. tuple_lt a b = Inr True) video_sort_key (map snd d)"
    and qs: "qs = map (\<lambda>q. (e_display q, e_format q)) sq"
    by (rule video_qualities_sorting)
  let ?phi = "\<lambda>q. (e_display q, e_format q)"
  have mem: "\<exists>k. grouped rt (e_format e) k e \<and> e_format e \<in> set fs" if "e \<in> set (map snd d)" for e
  proof -
    from that obtain k where "(k, e) \<in> set d" by auto
    then have "grouped rt (e_format e) k e" and "e_format e \<in> set (video_formats fs)"
      using inv by (auto simp: vinv_def)
    then show ?thesis by (auto simp: video_formats_def)
  qed
  have key: "video_sort_key e = (option_height (?phi e), option_fps (?phi e))
      \<and> is_number (option_fps (?phi e)) \<and> no_nan (video_sort_key e)" if "e \<in> set (map snd d)" for e
  proof -
    from mem[OF that] obtain k where g: "grouped rt (e_format e) k e" and f: "e_format e \<in> set fs"
      by blast
    have k: "video_sort_key e = (option_height (?phi e), option_fps (?phi e))"
      using grouped_sort_key[OF g] .
    have "\<not> is_nan (option_height (?phi e))" using nn f by (simp add: option_height_def)
    moreover have "\<not> is_nan (option_fps (?phi e))" using nn f by (simp add: option_fps_not_nan)
    ultimately show ?thesis using k grouped_fps_number[OF g] by (simp add: no_nan_def)
  qed
  have good: "\<forall>e\<in>set (map snd d). no_nan (video_sort_key e)" using key by blast
  have s: "sorted_wrt (\<lambda>a b. tuple_lt (video_sort_key a) (video_sort_key b) = Inr False) sq"
    unfolding sqd
  proof (rule sorted_sort_desc[where good = no_nan and rk = "\<lambda>k. (rank (fst k), rank (snd k))"])
    show "r = ((rank (fst a), rank (snd a)) < (rank (fst b), rank (snd b)))"
      if "no_nan a" "no_nan b" "tuple_lt a b = Inr r" for a b r
      using that by (rule tuple_lt_rank)
  qed (use good cmp in blast)+
  have set_sq: "set sq = set (map snd d)" unfolding sqd by (rule set_sort_desc)
  have step: "video_desc (?phi a) (?phi b)"
    if a: "a \<in> set sq" and b: "b \<in> set sq"
      and lt: "tuple_lt (video_sort_key a) (video_sort_key b) = Inr False" for a b
  proof -
    have ka: "video_sort_key a = (option_height (?phi a), option_fps (?phi a))"
      and na: "is_number (option_fps (?phi a))" and ga: "no_nan (video_sort_key a)"
      using key[of a] a set_sq by auto
    have kb: "video_sort_key b = (option_height (?phi b), option_fps (?phi b))"
      and nb: "is_number (option_fps (?phi b))" and gb: "no_nan (video_sort_key b)"
      using key[of b] b set_sq by auto
    show ?thesis unfolding video_desc_def
      using tuple_lt_False_desc[OF lt[unfolded ka kb] na nb ga[unfolded ka] gb[unfolded kb]] .
  qed
  have "sorted_wrt (\<lambda>a b. video_desc (?phi a) (?phi b)) sq"
    by (rule sorted_wrt_mono_rel[OF _ s]) (rule step)
  then show ?thesis using qs by (simp add: sorted_wrt_map)
qed


section \<open>Audio branch: lemmas\<close>

lemma audio_step_shape:
  assumes "audio_step rt f d = Inr d'"
  shows "\<exists>k. d' = AList.update k f d \<or> d' = d"
  using assms by (auto simp: audio_step_def split: sum.splits option.splits if_splits)

lemma audio_loop_distinct:
  "audio_loop rt fs d = Inr d' \<Longrightarrow> distinct (map fst d) \<Longrightarrow> distinct (map fst d')"
proof (induction fs arbitrary: d)
  case Nil
  then show ?case by simp
next
  case (Cons f fs)
  from Cons.prems(1) obtain d1 where s: "audio_step rt f d = Inr d1" and l: "audio_loop rt fs d1 = Inr d'"
    by (cases "audio_step rt f d") auto
  have "distinct (map fst d1)" using audio_step_shape[OF s] Cons.prems(2) by (auto simp: distinct_update)
  then show ?case using Cons.IH[OF l] by simp
qed

lemma audio_sort_key_number: "is_number (audio_sort_key x)"
  by (auto simp: audio_sort_key_def py_or_def)

lemma numbers_comparable: "\<forall>k\<in>set ks. is_number k \<Longrightarrow> all_comparable py_lt ks"
  by (induction ks) (auto simp: list_all_iff py_lt_def)

lemma audio_labels_distinct:
  assumes "audio_qualities rt fs = Inr qs"
  shows "distinct (map fst qs)"
proof -
  from assms obtain d where d: "audio_loop rt (audio_formats fs) [] = Inr d"
    and s: "sorted_reverse py_lt audio_sort_key d = Inr qs"
    by (cases "audio_loop rt (audio_formats fs) []") (auto simp: audio_qualities_def)
  have dist: "distinct (map fst d)" using audio_loop_distinct[OF d] by simp
  have cmp: "all_comparable py_lt (map audio_sort_key d)"
    by (rule numbers_comparable) (auto simp: audio_sort_key_number)
  have qs: "qs = sort_desc (\<lambda>a b. py_lt a b = Inr True) audio_sort_key d"
    using s cmp by (simp add: sorted_reverse_def)
  have "mset qs = mset d" using qs by (simp add: mset_sort_desc)
  then show ?thesis using dist mset_distinct_map by blast
qed

lemma audio_step_subset:
  assumes "audio_step rt f d = Inr d'"
  shows "snd ` set d' \<subseteq> insert f (snd ` set d)"
proof -
  from audio_step_shape[OF assms] obtain k where "d' = AList.update k f d \<or> d' = d" by blast
  then show ?thesis using set_update_subset[of k f d] by auto
qed

lemma audio_loop_subset:
  "audio_loop rt fs d = Inr d' \<Longrightarrow> snd ` set d' \<subseteq> set fs \<union> snd ` set d"
proof (induction fs arbitrary: d)
  case Nil
  then show ?case by simp
next
  case (Cons f fs)
  from Cons.prems obtain d1 where s: "audio_step rt f d = Inr d1" and l: "audio_loop rt fs d1 = Inr d'"
    by (cases "audio_step rt f d") auto
  show ?case using Cons.IH[OF l] audio_step_subset[OF s] by auto
qed

lemma audio_sort_key_value: "num_of (audio_sort_key x) = bitrate_or_zero (snd x)"
  by (cases "dget (abr (snd x))" rule: is_nan.cases)
     (auto simp: audio_sort_key_def bitrate_or_zero_def py_or_def)

lemma audio_sort_key_not_nan: "\<not> is_nan (dget (abr (snd x))) \<Longrightarrow> \<not> is_nan (audio_sort_key x)"
  by (auto simp: audio_sort_key_def py_or_def)

lemma audio_formats_subset: "set (audio_formats fs) \<subseteq> set fs"
  by (auto simp: audio_formats_def audio_only_formats_def)

lemma audio_sorted:
  assumes ok: "audio_qualities rt fs = Inr qs"
    and nn: "\<forall>f\<in>set fs. \<not> is_nan (dget (abr f))"
  shows "sorted_wrt (\<lambda>a b. float_le (bitrate_or_zero (snd b)) (bitrate_or_zero (snd a))) qs"
proof -
  from ok obtain d where d: "audio_loop rt (audio_formats fs) [] = Inr d"
    and s: "sorted_reverse py_lt audio_sort_key d = Inr qs"
    by (cases "audio_loop rt (audio_formats fs) []") (auto simp: audio_qualities_def)
  have cmp: "all_comparable py_lt (map audio_sort_key d)"
    by (rule numbers_comparable) (auto simp: audio_sort_key_number)
  have qs: "qs = sort_desc (\<lambda>a b. py_lt a b = Inr True) audio_sort_key d"
    using s cmp by (simp add: sorted_reverse_def)
  have "snd ` set d \<subseteq> set fs" using audio_loop_subset[OF d] audio_formats_subset[of fs] by auto
  then have good: "\<forall>x\<in>set d. \<not> is_nan (audio_sort_key x)"
    using nn by (auto intro!: audio_sort_key_not_nan)
  have srt: "sorted_wrt (\<lambda>a b. py_lt (audio_sort_key a) (audio_sort_key b) = Inr False) qs"
    unfolding qs
  proof (rule sorted_sort_desc[where good = "\<lambda>k. \<not> is_nan k" and rk = rank])
    show "r = (rank a < rank b)" if "\<not> is_nan a" "\<not> is_nan b" "py_lt a b = Inr r" for a b r
      using that by (rule py_lt_rank)
  qed (use good cmp in blast)+
  have set_qs: "set qs = set d" unfolding qs by (rule set_sort_desc)
  have le: "float_le (bitrate_or_zero (snd b)) (bitrate_or_zero (snd a))"
    if a: "a \<in> set qs" and b: "b \<in> set qs"
      and lt: "py_lt (audio_sort_key a) (audio_sort_key b) = Inr False" for a b
  proof -
    have "\<not> float_lt (num_of (audio_sort_key a)) (num_of (audio_sort_key b))"
      using lt audio_sort_key_number[of a] audio_sort_key_number[of b] by (simp add: py_lt_def)
    moreover have "\<not> is_nan (audio_sort_key a)" "\<not> is_nan (audio_sort_key b)"
      using good a b set_qs by auto
    ultimately have "float_le (num_of (audio_sort_key b)) (num_of (audio_sort_key a))"
      using float_not_lt_le num_of_not_nan by blast
    then show ?thesis by (simp add: audio_sort_key_value)
  qed
  show ?thesis by (rule sorted_wrt_mono_rel[OF _ srt]) (rule le)
qed

section \<open>Quality ranker: labels, order and grouping\<close>

lemma gaq_video: "download_type \<in> {1, 3} \<Longrightarrow>
    get_available_qualities rt (catalog fs) download_type = video_qualities rt fs"
  by (simp add: get_available_qualities_def catalog_def)

lemma gaq_cases:
  assumes "get_available_qualities rt info_opt download_type = Inr qs"
  obtains fs where "download_type \<in> {1, 3}" "video_qualities rt fs = Inr qs"
  | fs where "download_type \<in> {2, 4}" "audio_qualities rt fs = Inr qs"
  | "download_type \<notin> {1, 2, 3, 4}" "qs = []"
  | "download_type \<in> {1, 2, 3, 4}" "qs = []"
  using assms
  by (cases info_opt; cases "formats (the info_opt)")
     (auto simp: get_available_qualities_def split: if_splits)

text \<open>
  The order of the output when the catalog holds no NaN.  Whenever the ranker returns: in
  a video mode, if no height and no frame rate of the catalog is a NaN, the options are in
  descending order of height and, at equal height, of frame rate; in an audio mode, if no
  bitrate of the catalog is a NaN, they are in descending order of bitrate.
\<close>

lemma output_sorted_without_nan:
  assumes "get_available_qualities rt (catalog fs) download_type = Inr qs"
  shows "(download_type \<in> {1, 3}
            \<longrightarrow> (\<forall>f\<in>set fs. \<not> is_nan (dget (height f)) \<and> \<not> is_nan (dget (fps f)))
            \<longrightarrow> sorted_wrt video_desc qs)
       \<and> (download_type \<in> {2, 4}
            \<longrightarrow> (\<forall>f\<in>set fs. \<not> is_nan (dget (abr f)))
            \<longrightarrow> sorted_wrt (\<lambda>a b. float_le (bitrate_or_zero (snd b)) (bitrate_or_zero (snd a))) qs)"
proof (intro conjI impI)
  assume "download_type \<in> {1, 3}"
    and nn: "\<forall>f\<in>set fs. \<not> is_nan (dget (height f)) \<and> \<not> is_nan (dget (fps f))"
  then have "video_qualities rt fs = Inr qs" using assms gaq_video by simp
  then show "sorted_wrt video_desc qs" using nn by (rule video_sorted)
next
  assume "download_type \<in> {2, 4}" and nn: "\<forall>f\<in>set fs. \<not> is_nan (dget (abr f))"
  then have "audio_qualities rt fs = Inr qs"
    using assms by (auto simp: get_available_qualities_def catalog_def)
  then show "sorted_wrt (\<lambda>a b. float_le (bitrate_or_zero (snd b)) (bitrate_or_zero (snd a))) qs"
    using nn by (rule audio_sorted)
qed

lemma output_sorted_example:
  "sorted_wrt video_desc example_video_ranking
   \<and> sorted_wrt (\<lambda>a b. float_le (bitrate_or_zero (snd b)) (bitrate_or_zero (snd a)))
        example_audio_ranking"
proof -
  have v: "get_available_qualities rt0 (catalog example_catalog) 1 = Inr example_video_ranking"
    by code_simp
  have a: "get_available_qualities rt0 (catalog example_catalog) 2 = Inr example_audio_ranking"
    by code_simp
  have nv: "\<forall>f\<in>set example_catalog. \<not> is_nan (dget (height f)) \<and> \<not> is_nan (dget (fps f))"
    by code_simp
  have na: "\<forall>f\<in>set example_catalog. \<not> is_nan (dget (abr f))"
    by code_simp
  show ?thesis
    using output_sorted_without_nan [OF v] output_sorted_without_nan [OF a] nv na by simp
qed

text \<open>
  C1 (as amended).  In the audio modes the labels of the returned options are pairwise
  distinct.  In the video modes the pairs of label and codec tier (premium or standard)
  of the backing stream are pairwise distinct; the label alone may occur once per tier.
\<close>

theorem option_labels_distinct:
  assumes "get_available_qualities rt info_opt download_type = Inr qs"
  shows "(download_type \<in> {1, 3} \<longrightarrow> distinct (map (\<lambda>q. (fst q, is_premium (snd q))) qs))
       \<and> (download_type \<notin> {1, 3} \<longrightarrow> distinct (map fst qs))"
  using assms
proof (cases rule: gaq_cases)
  case (1 fs)
  then show ?thesis using video_labels_distinct by blast
next
  case (2 fs)
  then show ?thesis using audio_labels_distinct by auto
next
  case 3
  then show ?thesis by simp
next
  case 4
  then show ?thesis by simp
qed

theorem option_labels_distinct_witness:
  "get_available_qualities rt0 (catalog example_catalog) 1 = Inr example_video_ranking
   \<and> distinct (map (\<lambda>q. (fst q, is_premium (snd q))) example_video_ranking)
   \<and> get_available_qualities rt0 (catalog example_catalog) 2 = Inr example_audio_ranking
   \<and> distinct (map fst example_audio_ranking)"
proof -
  have v: "get_available_qualities rt0 (catalog example_catalog) 1 = Inr example_video_ranking"
    by code_simp
  have a: "get_available_qualities rt0 (catalog example_catalog) 2 = Inr example_audio_ranking"
    by code_simp
  show ?thesis
    using v a option_labels_distinct [OF v] option_labels_distinct [OF a] by simp
qed

text \<open>
  C1 as stated fails: for Scenario A the ranker returns the label \<^verbatim>\<open>1080p\<close> twice, once
  for the \<^verbatim>\<open>avc1\<close> stream and once for the \<^verbatim>\<open>vp9\<close> stream.
\<close>

theorem option_labels_counterexample:
  "map_sum id (map fst) (get_available_qualities rt0 (catalog scenario_a) 1)
     = Inr [''1080p'', ''1080p'', ''720p'']
   \<and> \<not> distinct [''1080p'', ''1080p'', ''720p'']"
  by code_simp




end
